theory Spec2Isabelle
  imports Main
begin

section \<open>Python values handled by the manager\<close>

text \<open>
  A Python \<^verbatim>\<open>bytes\<close> object is a list of 8-bit values (\<^typ>\<open>char\<close> is HOL's
  8-bit character), a Python \<^verbatim>\<open>str\<close> is a list of Unicode code points. The data
  a unit registers is \<^verbatim>\<open>Any\<close>; the manager distinguishes bytes, text, lists and
  tuples.
\<close>

type_synonym bytes = "char list"
type_synonym pystr = "nat list"

datatype pydata =
    Bytes bytes
  | Str pystr
  | PyList "pydata list"
  | PyTuple "pydata list"

datatype exn =
    UnicodeDecodeError
  | UnicodeEncodeError
  | AttributeError
  | TypeError
  | UnitError string

subsection \<open>\<^verbatim>\<open>str.encode('utf-8')\<close> and \<^verbatim>\<open>bytes.decode('utf-8')\<close>\<close>

text \<open>
  The strict UTF-8 codec of the Python runtime. Encoding raises on a lone
  surrogate; decoding raises on any byte sequence that is not well-formed UTF-8
  (overlong forms, surrogates and code points above U+10FFFF included). \<open>None\<close>
  stands for the raise.
\<close>

fun encode_cp :: "nat \<Rightarrow> bytes option" where
  "encode_cp c =
     (if c < 0x80 then Some [char_of c]
      else if c < 0x800 then Some [char_of (0xC0 + c div 64), char_of (0x80 + c mod 64)]
      else if 0xD800 \<le> c \<and> c \<le> 0xDFFF then None
      else if c < 0x10000 then
        Some [char_of (0xE0 + c div 4096), char_of (0x80 + (c div 64) mod 64),
              char_of (0x80 + c mod 64)]
      else if c < 0x110000 then
        Some [char_of (0xF0 + c div 262144), char_of (0x80 + (c div 4096) mod 64),
              char_of (0x80 + (c div 64) mod 64), char_of (0x80 + c mod 64)]
      else None)"

fun utf8_encode :: "pystr \<Rightarrow> bytes option" where
  "utf8_encode [] = Some []"
| "utf8_encode (c # cs) =
     (case encode_cp c of
        None \<Rightarrow> None
      | Some bs \<Rightarrow> (case utf8_encode cs of None \<Rightarrow> None | Some r \<Rightarrow> Some (bs @ r)))"

definition cont :: "char \<Rightarrow> nat \<Rightarrow> nat \<Rightarrow> bool" where
  "cont b lo hi = (lo \<le> (of_char b :: nat) \<and> (of_char b :: nat) \<le> hi)"

definition low6 :: "char \<Rightarrow> nat" where
  "low6 b = (of_char b :: nat) mod 64"

fun utf8_decode :: "bytes \<Rightarrow> pystr option" where
  "utf8_decode [] = Some []"
| "utf8_decode (b0 # bs) =
     (let n0 = (of_char b0 :: nat) in
      if n0 < 0x80 then map_option ((#) n0) (utf8_decode bs)
      else if 0xC2 \<le> n0 \<and> n0 \<le> 0xDF then
        (case bs of
           b1 # r \<Rightarrow>
             if cont b1 0x80 0xBF
             then map_option ((#) ((n0 - 0xC0) * 64 + low6 b1)) (utf8_decode r)
             else None
         | _ \<Rightarrow> None)
      else if 0xE0 \<le> n0 \<and> n0 \<le> 0xEF then
        (case bs of
           b1 # b2 # r \<Rightarrow>
             if cont b1 (if n0 = 0xE0 then 0xA0 else 0x80) (if n0 = 0xED then 0x9F else 0xBF)
                \<and> cont b2 0x80 0xBF
             then map_option ((#) ((n0 - 0xE0) * 4096 + low6 b1 * 64 + low6 b2)) (utf8_decode r)
             else None
         | _ \<Rightarrow> None)
      else if 0xF0 \<le> n0 \<and> n0 \<le> 0xF4 then
        (case bs of
           b1 # b2 # b3 # r \<Rightarrow>
             if cont b1 (if n0 = 0xF0 then 0x90 else 0x80) (if n0 = 0xF4 then 0x8F else 0xBF)
                \<and> cont b2 0x80 0xBF \<and> cont b3 0x80 0xBF
             then map_option
                    ((#) ((n0 - 0xF0) * 262144 + low6 b1 * 4096 + low6 b2 * 64 + low6 b3))
                    (utf8_decode r)
             else None
         | _ \<Rightarrow> None)
      else None)"

subsection \<open>\<^verbatim>\<open>katana.util.isprintable\<close>\<close>

text \<open>
  Modelled from the spec: \<^verbatim>\<open>katana.util\<close> is not among the sources. The spec
  describes the predicate as fixed: every byte of the match is printable ASCII or
  common whitespace (tab, line feed, vertical tab, form feed, carriage return).
\<close>

definition isprintable :: "pystr \<Rightarrow> bool" where
  "isprintable found = list_all (\<lambda>c. (32 \<le> c \<and> c \<le> 126) \<or> (9 \<le> c \<and> c \<le> 13)) found"

subsection \<open>\<^verbatim>\<open>re.sub(b'<[^<]+>', b'', data)\<close>\<close>

text \<open>
  After a \<^verbatim>\<open><\<close> the class \<^verbatim>\<open>[^<]+\<close> greedily takes the whole run of bytes
  up to the next \<^verbatim>\<open><\<close> and then gives bytes back until a \<^verbatim>\<open>>\<close> follows; at
  least one byte stays in the class. \<open>tag_len rest\<close> is the number of bytes after
  the \<^verbatim>\<open><\<close> that the match consumes, if there is a match at that position.
  Matches are removed left to right and do not overlap.
\<close>

definition tag_len :: "bytes \<Rightarrow> nat option" where
  "tag_len rest =
     (let run = takeWhile (\<lambda>c. c \<noteq> CHR ''<'') rest;
          ks = filter (\<lambda>k. run ! k = CHR ''>'') [1..<length run]
      in if ks = [] then None else Some (last ks + 1))"

function strip_xml :: "bytes \<Rightarrow> bytes" where
  "strip_xml [] = []"
| "strip_xml (c # cs) =
     (if c = CHR ''<'' then
        (case tag_len cs of
           Some n \<Rightarrow> strip_xml (drop n cs)
         | None \<Rightarrow> c # strip_xml cs)
      else c # strip_xml cs)"
  by pat_completeness auto
termination
  by (relation "measure length") auto

section \<open>Units, targets and the manager's state\<close>

text \<open>
  Objects are held by reference in the source. A root Target is identified by its
  address (a natural number); \<open>unit.origin\<close> is the address of the root Target of
  the unit's derivation tree, and the mutable \<open>completed\<close> attribute of root
  Targets is the store \<open>completed\<close> of the manager's state.

  The case generator returned by \<open>unit.enumerate()\<close> is the list of the outcomes
  of the successive \<open>next\<close> calls: a case, or an exception raised by the unit's
  code. \<open>next\<close> on the empty list signals the end of the sequence (Python's
  \<^verbatim>\<open>StopIteration\<close>). \<open>enumerate\<close> itself
  may raise (\<open>Inl\<close>).
\<close>

datatype genstep = Yield nat | Raise exn

record kunit =
  PRIORITY :: int
  STRICT_FLAGS :: bool
  origin :: nat
  depth :: int
  unit_target :: nat
  enumerate :: "exn + genstep list"

text \<open>
  Modelled from the spec: the class \<^verbatim>\<open>katana.target.Target\<close> is not among the
  sources. A Target holds its payload and its parent unit; its depth is 0 for a
  root and \<open>parent.depth + 1\<close> otherwise; its origin is the root of its tree
  (itself for a root).
\<close>

record target =
  upstream :: pydata
  parent :: "kunit option"
  tdepth :: int
  torigin :: nat

datatype action = Init | Evaluate | Abort

record workitem =
  priority :: int
  action :: action
  unit :: "kunit option"
  generator :: "genstep list option"

datatype event =
    OnArtifact kunit pydata
  | OnData kunit pydata
  | OnFlag kunit pystr
  | OnException kunit exn
  | OnDepthLimit nat kunit
  | OnCompletion bool

text \<open>
  The manager: its configuration (the \<open>manager\<close> section, read with typed
  getters), the compiled flag pattern (\<open>None\<close> until \<open>start\<close> compiles it) as the
  function from the searched bytes to the span of the leftmost match, and the
  Finder. The state: the \<open>completed\<close> store, the Targets built so far (a Target's
  address is its index), the work queue, the events the Monitor received, and the
  number of resets of the barrier (\<open>None\<close> until \<open>start\<close> creates the barrier).
\<close>

record manager =
  recurse :: bool
  max_depth :: int
  threads :: nat
  flag_pattern :: "(bytes \<Rightarrow> (nat \<times> nat) option) option"
  finder_match :: "nat \<Rightarrow> target \<Rightarrow> kunit list"

record mstate =
  completed :: "nat \<Rightarrow> bool"
  targets :: "target list"
  work :: "workitem list"
  events :: "event list"
  barrier_resets :: "nat option"

definition emit :: "event \<Rightarrow> mstate \<Rightarrow> mstate" where
  "emit e st = st\<lparr>events := events st @ [e]\<rparr>"

section \<open>Registering flags and searching data for them\<close>

definition register_flag :: "kunit \<Rightarrow> pystr \<Rightarrow> mstate \<Rightarrow> mstate" where
  "register_flag u flag st =
     (let st1 = emit (OnFlag u flag) st
      in st1\<lparr>completed := (completed st1)(origin u := True)\<rparr>)"

text \<open>\<open>match.group()\<close> for a match with span \<open>(s, e)\<close> on \<open>d\<close>: the slice \<open>d[s:e]\<close>.\<close>

definition group :: "bytes \<Rightarrow> nat \<times> nat \<Rightarrow> bytes" where
  "group d sp = take (snd sp - fst sp) (drop (fst sp) d)"

lemma length_strip_xml: "length (strip_xml d) \<le> length d"
proof (induction d rule: strip_xml.induct)
  case 1
  show ?case by simp
next
  case (2 c cs)
  show ?case
  proof (cases "c = CHR ''<''")
    case False
    with 2 show ?thesis by simp
  next
    case True
    show ?thesis
    proof (cases "tag_len cs")
      case None
      with True 2 show ?thesis by simp
    next
      case (Some n)
      with True 2 have "length (strip_xml (drop n cs)) \<le> length (drop n cs)" by simp
      with True Some show ?thesis by simp
    qed
  qed
qed

lemma strip_xml_shorter: "strip_xml d \<noteq> d \<Longrightarrow> length (strip_xml d) < length d"
proof (induction d rule: strip_xml.induct)
  case 1
  then show ?case by simp
next
  case (2 c cs)
  show ?case
  proof (cases "c = CHR ''<'' \<and> tag_len cs \<noteq> None")
    case True
    then obtain n where n: "tag_len cs = Some n" by auto
    have "length (strip_xml (drop n cs)) \<le> length (drop n cs)" by (rule length_strip_xml)
    with True n show ?thesis by simp
  next
    case False
    then have eq: "strip_xml (c # cs) = c # strip_xml cs" by auto
    with "2.prems" have "strip_xml cs \<noteq> cs" by simp
    with False 2 have "length (strip_xml cs) < length cs" by auto
    with eq show ?thesis by simp
  qed
qed

text \<open>
  \<open>find_flag\<close> on a bytes object (lines 134-150). The result is the exception
  that left the call, if any, and the state: what the Monitor received before a
  raise stays received.
\<close>

function find_flag_bytes :: "manager \<Rightarrow> kunit \<Rightarrow> bytes \<Rightarrow> mstate \<Rightarrow> exn option \<times> mstate" where
  "find_flag_bytes M u d st =
     (case (if strip_xml d \<noteq> d then find_flag_bytes M u (strip_xml d) st else (None, st)) of
        (Some e, st1) \<Rightarrow> (Some e, st1)
      | (None, st1) \<Rightarrow>
          (case flag_pattern M of
             None \<Rightarrow> (Some AttributeError, st1)
           | Some search \<Rightarrow>
               (case search d of
                  None \<Rightarrow> (None, st1)
                | Some sp \<Rightarrow>
                    (case utf8_decode (group d sp) of
                       None \<Rightarrow> (Some UnicodeDecodeError, st1)
                     | Some found \<Rightarrow>
                         if isprintable found then
                           (if STRICT_FLAGS u \<and> length found = length d
                            then (None, register_flag u found st1)
                            else if \<not> STRICT_FLAGS u
                            then (None, register_flag u found st1)
                            else (None, st1))
                         else (None, st1)))))"
  by pat_completeness auto
termination
  by (relation "measure (\<lambda>(M, u, d, st). length d)") (auto simp: strip_xml_shorter)

declare find_flag_bytes.simps [simp del]

fun find_flag :: "manager \<Rightarrow> kunit \<Rightarrow> pydata \<Rightarrow> mstate \<Rightarrow> exn option \<times> mstate"
  and find_flag_items :: "manager \<Rightarrow> kunit \<Rightarrow> pydata list \<Rightarrow> mstate \<Rightarrow> exn option \<times> mstate"
where
  "find_flag M u (PyList xs) st = find_flag_items M u xs st"
| "find_flag M u (PyTuple xs) st = find_flag_items M u xs st"
| "find_flag M u (Str s) st =
     (case utf8_encode s of
        None \<Rightarrow> (Some UnicodeEncodeError, st)
      | Some d \<Rightarrow> find_flag_bytes M u d st)"
| "find_flag M u (Bytes d) st = find_flag_bytes M u d st"
| "find_flag_items M u [] st = (None, st)"
| "find_flag_items M u (x # xs) st =
     (case find_flag M u x st of
        (Some e, st1) \<Rightarrow> (Some e, st1)
      | (None, st1) \<Rightarrow> find_flag_items M u xs st1)"

section \<open>Queueing units and targets\<close>

definition queue :: "kunit \<Rightarrow> mstate \<Rightarrow> mstate" where
  "queue u st =
     (if completed st (origin u) then st
      else st\<lparr>work := work st @
                   [\<lparr>priority = PRIORITY u, action = Init, unit = Some u, generator = None\<rparr>],
              barrier_resets := map_option Suc (barrier_resets st)\<rparr>)"

text \<open>
  \<open>requeue\<close> reads \<open>item.unit.origin\<close>; on an item without a unit that is an
  \<open>AttributeError\<close>.
\<close>

definition requeue :: "workitem \<Rightarrow> mstate \<Rightarrow> exn option \<times> mstate" where
  "requeue item st =
     (case unit item of
        None \<Rightarrow> (Some AttributeError, st)
      | Some u \<Rightarrow>
          if completed st (origin u) then (None, st)
          else (None, st\<lparr>work := work st @ [item\<lparr>action := Evaluate\<rparr>]\<rparr>))"

text \<open>
  \<open>Manager.target\<close>: builds the Target; the new object gets the next free
  address. The \<open>completed\<close> store is \<open>False\<close> at every address no
  \<open>register_flag\<close> has written.
\<close>

definition new_target :: "pydata \<Rightarrow> kunit option \<Rightarrow> mstate \<Rightarrow> target \<times> mstate" where
  "new_target up par st =
     (let t = \<lparr>upstream = up, parent = par,
                tdepth = (case par of None \<Rightarrow> 0 | Some p \<Rightarrow> depth p + 1),
                torigin = (case par of None \<Rightarrow> length (targets st) | Some p \<Rightarrow> origin p)\<rparr>
      in (t, st\<lparr>targets := targets st @ [t]\<rparr>))"

text \<open>
  Python's \<open>str.isspace\<close> code points, which \<open>str.strip()\<close> removes.
\<close>

definition py_isspace :: "nat \<Rightarrow> bool" where
  "py_isspace c =
     ((9 \<le> c \<and> c \<le> 13) \<or> (28 \<le> c \<and> c \<le> 32) \<or> c = 0x85 \<or> c = 0xA0 \<or> c = 0x1680
      \<or> (0x2000 \<le> c \<and> c \<le> 0x200A) \<or> c = 0x2028 \<or> c = 0x2029 \<or> c = 0x202F
      \<or> c = 0x205F \<or> c = 0x3000)"

text \<open>
  The test \<^verbatim>\<open>upstream.strip() == ''\<close> of line 173. The right-hand side is a
  \<open>str\<close>: a \<open>bytes\<close> object, stripped or not, never equals it; lists and tuples
  have no \<open>strip\<close>.
\<close>

fun strip_is_empty_str :: "pydata \<Rightarrow> exn + bool" where
  "strip_is_empty_str (Bytes d) = Inr False"
| "strip_is_empty_str (Str s) = Inr (list_all py_isspace s)"
| "strip_is_empty_str (PyList xs) = Inl AttributeError"
| "strip_is_empty_str (PyTuple xs) = Inl AttributeError"

definition queue_target ::
  "manager \<Rightarrow> pydata \<Rightarrow> kunit option \<Rightarrow> mstate \<Rightarrow> (exn + target option) \<times> mstate" where
  "queue_target M up par st =
     (case strip_is_empty_str up of
        Inl e \<Rightarrow> (Inl e, st)
      | Inr True \<Rightarrow> (Inr None, st)
      | Inr False \<Rightarrow>
          if par \<noteq> None \<and> completed st (origin (the par)) then (Inr None, st)
          else if par \<noteq> None \<and> depth (the par) + 1 \<ge> max_depth M
          then (Inr None, emit (OnDepthLimit (unit_target (the par)) (the par)) st)
          else
            (let (t, st1) = new_target up par st
             in (Inr (Some t),
                 foldl (\<lambda>s u. queue u s) st1 (finder_match M (length (targets st)) t))))"

section \<open>Registering artifacts and data\<close>

definition register_artifact ::
  "manager \<Rightarrow> kunit \<Rightarrow> pydata \<Rightarrow> bool \<Rightarrow> mstate \<Rightarrow> exn option \<times> mstate" where
  "register_artifact M u path rec st =
     (let st1 = emit (OnArtifact u path) st
      in if recurse M \<and> rec then
           (case queue_target M path (Some u) st1 of
              (Inl e, st2) \<Rightarrow> (Some e, st2)
            | (Inr r, st2) \<Rightarrow> (None, st2))
         else (None, st1))"

definition register_data ::
  "manager \<Rightarrow> kunit \<Rightarrow> pydata \<Rightarrow> bool \<Rightarrow> mstate \<Rightarrow> exn option \<times> mstate" where
  "register_data M u data rec st =
     (let st1 = emit (OnData u data) st
      in case find_flag M u data st1 of
           (Some e, st2) \<Rightarrow> (Some e, st2)
         | (None, st2) \<Rightarrow>
             if recurse M \<and> \<not> completed st2 (origin u) \<and> rec then
               (case queue_target M data (Some u) st2 of
                  (Inl e, st3) \<Rightarrow> (Some e, st3)
                | (Inr r, st3) \<Rightarrow> (None, st3))
             else (None, st2))"

section \<open>Joining\<close>

text \<open>
  \<open>_signal_complete\<close> puts one abort item per worker thread and resets the
  barrier.
\<close>

definition signal_complete :: "manager \<Rightarrow> mstate \<Rightarrow> mstate" where
  "signal_complete M st =
     st\<lparr>work := work st @
            replicate (threads M) \<lparr>priority = - 10000, action = Abort, unit = None, generator = None\<rparr>,
        barrier_resets := map_option Suc (barrier_resets st)\<rparr>"

text \<open>
  What the driver observes in one turn of the wait loop of \<open>join\<close>: how
  \<open>barrier.wait\<close> ended (it returned, it raised \<open>BrokenBarrierError\<close>, or the
  user interrupted it), and whether the clock has reached \<open>stop_time\<close> when line
  313 reads it. The loop runs until it breaks; \<open>None\<close> says that the driver is
  still waiting after the observations given.
\<close>

datatype wait_outcome = Tripped | Broken | Interrupt

fun join_wait ::
  "manager \<Rightarrow> bool \<Rightarrow> bool \<Rightarrow> (wait_outcome \<times> bool) list \<Rightarrow> mstate \<Rightarrow> (bool \<times> mstate) option" where
  "join_wait M has_timeout aborting [] st = None"
| "join_wait M has_timeout aborting ((Tripped, expired) # env) st =
     Some (False, signal_complete M st)"
| "join_wait M has_timeout aborting ((Broken, expired) # env) st =
     (if has_timeout \<and> expired then Some (True, signal_complete M st)
      else join_wait M has_timeout aborting env st)"
| "join_wait M has_timeout aborting ((Interrupt, expired) # env) st =
     (if aborting then Some (False, st)
      else if has_timeout \<and> expired
      then Some (True, signal_complete M (signal_complete M st))
      else join_wait M has_timeout True env (signal_complete M st))"

text \<open>
  \<open>join\<close>: \<open>aborting\<close> starts as \<open>True\<close> (line 280). The worker threads
  are joined after the loop; they run on their own and are not part of this
  function. The result is \<open>not did_timeout\<close>.
\<close>

definition join ::
  "manager \<Rightarrow> bool \<Rightarrow> (wait_outcome \<times> bool) list \<Rightarrow> mstate \<Rightarrow> (bool \<times> mstate) option" where
  "join M has_timeout env st =
     (case join_wait M has_timeout True env st of
        None \<Rightarrow> None
      | Some (did_timeout, st1) \<Rightarrow> Some (\<not> did_timeout, emit (OnCompletion did_timeout) st1))"

section \<open>The worker loop\<close>

text \<open>
  \<open>work.get(False)\<close>: the item of least priority, or nothing when the queue is
  empty. Among items of equal priority the model takes the one queued first; the
  heap of the source serves them in another order, which nothing below depends
  on.
\<close>

fun get :: "workitem list \<Rightarrow> (workitem \<times> workitem list) option" where
  "get [] = None"
| "get (w # ws) =
     (case get ws of
        None \<Rightarrow> Some (w, [])
      | Some (m, rest) \<Rightarrow>
          if priority m < priority w then Some (m, w # rest) else Some (w, ws))"

text \<open>
  One turn of the loop of \<open>_thread\<close>, and how it ends: the loop goes on, the
  thread leaves the loop, the thread waits at the barrier (the queue was empty),
  or an exception leaves \<open>_thread\<close> and ends the thread. \<open>evaluate\<close> is the
  unit's own code: it may call back into the manager and may raise.
\<close>

datatype turn = Continue | Exit | AtBarrier | Died exn

definition thread_item ::
  "(kunit \<Rightarrow> nat \<Rightarrow> mstate \<Rightarrow> exn option \<times> mstate) \<Rightarrow> workitem \<Rightarrow> mstate \<Rightarrow> turn \<times> mstate" where
  "thread_item evaluate w st =
     (if action w = Abort then (Exit, st)
      else case unit w of
        None \<Rightarrow> (Died AttributeError, st)
      | Some u \<Rightarrow>
          if completed st (origin u) then (Continue, st)
          else
            (case (if action w = Init then enumerate u
                   else (case generator w of None \<Rightarrow> Inl TypeError | Some g \<Rightarrow> Inr g)) of
               Inl e \<Rightarrow> (Died e, st)
             | Inr [] \<Rightarrow> (Continue, st)
             | Inr (Raise e # g) \<Rightarrow> (Died e, st)
             | Inr (Yield c # g) \<Rightarrow>
                 (case requeue (w\<lparr>generator := Some g\<rparr>) st of
                    (Some e, st1) \<Rightarrow> (Died e, st1)
                  | (None, st1) \<Rightarrow>
                      (case evaluate u c st1 of
                         (None, st2) \<Rightarrow> (Continue, st2)
                       | (Some e, st2) \<Rightarrow> (Continue, emit (OnException u e) st2)))))"

definition thread_turn ::
  "(kunit \<Rightarrow> nat \<Rightarrow> mstate \<Rightarrow> exn option \<times> mstate) \<Rightarrow> mstate \<Rightarrow> turn \<times> mstate" where
  "thread_turn evaluate st =
     (case get (work st) of
        None \<Rightarrow> (AtBarrier, st)
      | Some (w, rest) \<Rightarrow> thread_item evaluate w (st\<lparr>work := rest\<rparr>))"

section \<open>A sample flag format\<close>

text \<open>
  The compiled form of the flag format \<^verbatim>\<open>FLAG{[^}]+}\<close> (with \<open>IGNORECASE\<close>):
  the leftmost position where the five bytes \<^verbatim>\<open>FLAG{\<close> stand, in either case,
  followed by at least one byte other than \<^verbatim>\<open>}\<close> and then \<^verbatim>\<open>}\<close>; the class
  cannot take a \<^verbatim>\<open>}\<close>, so the match ends at the first one.
\<close>

definition flag_braces_at :: "bytes \<Rightarrow> nat option" where
  "flag_braces_at d =
     (case d of
        f # l # a # g # b # rest \<Rightarrow>
          if (f = CHR ''F'' \<or> f = CHR ''f'') \<and> (l = CHR ''L'' \<or> l = CHR ''l'')
             \<and> (a = CHR ''A'' \<or> a = CHR ''a'') \<and> (g = CHR ''G'' \<or> g = CHR ''g'')
             \<and> b = CHR ''{''
          then (let body = takeWhile (\<lambda>c. c \<noteq> CHR ''}'') rest
                in if body \<noteq> [] \<and> length body < length rest
                   then Some (length body + 6) else None)
          else None
      | _ \<Rightarrow> None)"

fun flag_braces_from :: "nat \<Rightarrow> bytes \<Rightarrow> (nat \<times> nat) option" where
  "flag_braces_from i [] = None"
| "flag_braces_from i (c # cs) =
     (case flag_braces_at (c # cs) of
        Some n \<Rightarrow> Some (i, i + n)
      | None \<Rightarrow> flag_braces_from (Suc i) cs)"

definition flag_braces :: "bytes \<Rightarrow> (nat \<times> nat) option" where
  "flag_braces d = flag_braces_from 0 d"

section \<open>What a call of \<open>find_flag\<close> searches and registers\<close>

text \<open>
  The byte strings \<open>find_flag\<close> applies the flag pattern to when called on \<open>d\<close>:
  \<open>d\<close> and, as long as removing the tags changes it, the stripped form.
\<close>

function xml_forms :: "bytes \<Rightarrow> bytes list" where
  "xml_forms d = d # (if strip_xml d \<noteq> d then xml_forms (strip_xml d) else [])"
  by pat_completeness auto
termination
  by (relation "measure length") (auto simp: strip_xml_shorter)

declare xml_forms.simps [simp del]

text \<open>
  The byte strings the flag pattern is applied to for a given data value: text is
  encoded first, lists and tuples contribute the strings of their elements in
  order.
\<close>

fun searched :: "pydata \<Rightarrow> bytes list"
  and searched_items :: "pydata list \<Rightarrow> bytes list"
where
  "searched (PyList xs) = searched_items xs"
| "searched (PyTuple xs) = searched_items xs"
| "searched (Str s) = (case utf8_encode s of None \<Rightarrow> [] | Some d \<Rightarrow> xml_forms d)"
| "searched (Bytes d) = xml_forms d"
| "searched_items [] = []"
| "searched_items (x # xs) = searched x @ searched_items xs"

text \<open>
  Two properties of the events \<open>fl\<close> a call adds to the Monitor's log, relative
  to the searched strings \<open>cs\<close>. \<open>only_flags\<close>: each event reports a flag of
  the unit that is the decoded, printable match of the pattern on one of the
  strings and, for a unit with \<open>STRICT_FLAGS\<close>, is that whole string.
  \<open>all_flags\<close>: for a unit without \<open>STRICT_FLAGS\<close>, every printable match on
  one of the strings is reported.
\<close>

definition only_flags ::
  "(bytes \<Rightarrow> (nat \<times> nat) option) \<Rightarrow> kunit \<Rightarrow> bytes list \<Rightarrow> event list \<Rightarrow> bool" where
  "only_flags search u cs fl =
     (\<forall>e\<in>set fl. \<exists>c\<in>set cs. \<exists>sp f.
        e = OnFlag u f \<and> search c = Some sp \<and> utf8_decode (group c sp) = Some f
        \<and> isprintable f \<and> (STRICT_FLAGS u \<longrightarrow> group c sp = c))"

definition all_flags ::
  "(bytes \<Rightarrow> (nat \<times> nat) option) \<Rightarrow> kunit \<Rightarrow> bytes list \<Rightarrow> event list \<Rightarrow> bool" where
  "all_flags search u cs fl =
     (\<forall>c\<in>set cs. \<forall>sp f.
        search c = Some sp \<and> utf8_decode (group c sp) = Some f \<and> isprintable f
        \<and> \<not> STRICT_FLAGS u \<longrightarrow> OnFlag u f \<in> set fl)"

text \<open>
  The state after the flags \<open>fl\<close> have been registered for unit \<open>u\<close>: the events
  are logged and, if there are any, the origin of \<open>u\<close> is completed.
\<close>

definition flagged :: "mstate \<Rightarrow> kunit \<Rightarrow> event list \<Rightarrow> mstate" where
  "flagged st u fl =
     st\<lparr>events := events st @ fl,
        completed := (if fl = [] then completed st else (completed st)(origin u := True))\<rparr>"

text \<open>
  The data on which a call of \<open>find_flag\<close> meets no codec error: every text
  element can be encoded, and on every searched byte string the match of the
  pattern, if there is one, is well-formed UTF-8.
\<close>

definition decodable_matches :: "(bytes \<Rightarrow> (nat \<times> nat) option) \<Rightarrow> bytes \<Rightarrow> bool" where
  "decodable_matches search d =
     list_all (\<lambda>c. case search c of None \<Rightarrow> True
                                 | Some sp \<Rightarrow> utf8_decode (group c sp) \<noteq> None)
       (xml_forms d)"

fun tolerated :: "(bytes \<Rightarrow> (nat \<times> nat) option) \<Rightarrow> pydata \<Rightarrow> bool"
  and tolerated_items :: "(bytes \<Rightarrow> (nat \<times> nat) option) \<Rightarrow> pydata list \<Rightarrow> bool"
where
  "tolerated search (PyList xs) = tolerated_items search xs"
| "tolerated search (PyTuple xs) = tolerated_items search xs"
| "tolerated search (Str s) =
     (case utf8_encode s of None \<Rightarrow> False | Some d \<Rightarrow> decodable_matches search d)"
| "tolerated search (Bytes d) = decodable_matches search d"
| "tolerated_items search [] = True"
| "tolerated_items search (x # xs) = (tolerated search x \<and> tolerated_items search xs)"

section \<open>A sample configuration\<close>

text \<open>
  A started manager with the sample flag format, two workers and a Finder that
  answers every Target with one unit of priority 50 on that Target, whose
  generator yields a single case; the state right after \<open>start\<close>; and a unit on
  a root Target at address 0.
\<close>

definition sample_unit :: "bool \<Rightarrow> nat \<Rightarrow> nat \<Rightarrow> int \<Rightarrow> kunit" where
  "sample_unit strict a orig dep =
     \<lparr>PRIORITY = 50, STRICT_FLAGS = strict, origin = orig, depth = dep, unit_target = a,
      enumerate = Inr [Yield 0]\<rparr>"

definition sample_manager :: manager where
  "sample_manager =
     \<lparr>recurse = True, max_depth = 10, threads = 2, flag_pattern = Some flag_braces,
      finder_match = (\<lambda>a t. [sample_unit False a (torigin t) (tdepth t)])\<rparr>"

definition started :: mstate where
  "started =
     \<lparr>completed = (\<lambda>a. False), targets = [], work = [], events = [], barrier_resets = Some 0\<rparr>"

text \<open>
  A unit of priority 10 on the root Target with a given behaviour of
  \<open>enumerate\<close>, and the item \<open>queue\<close> builds for a unit.
\<close>

definition failing_unit :: "exn + genstep list \<Rightarrow> kunit" where
  "failing_unit en =
     \<lparr>PRIORITY = 10, STRICT_FLAGS = False, origin = 0, depth = 0, unit_target = 0,
      enumerate = en\<rparr>"

definition init_item :: "kunit \<Rightarrow> workitem" where
  "init_item u = \<lparr>priority = PRIORITY u, action = Init, unit = Some u, generator = None\<rparr>"

section \<open>The completed flag\<close>

lemma completed_register_flag:
  "completed (register_flag u flag st) = (completed st)(origin u := True)"
  by (simp add: register_flag_def emit_def)

text \<open>
  Claim C9. \<open>register_flag\<close> is idempotent and monotonic on the origin's
  \<open>completed\<close> flag: after one call the flag of the unit's origin is true; a
  repeated call for the same origin (by any unit of that origin, with any flag
  string) leaves the store of completed flags as the first call left it; and no
  call turns a flag that is true back to false, whatever the origin.
\<close>

theorem register_flag_idempotent_monotonic:
  "completed (register_flag u flag st) (origin u)
   \<and> (origin u' = origin u \<longrightarrow>
        completed (register_flag u' flag' (register_flag u flag st))
          = completed (register_flag u flag st))
   \<and> (completed st a \<longrightarrow> completed (register_flag u flag st) a)"
  by (auto simp: completed_register_flag)

theorem register_flag_idempotent_monotonic_witness:
  "completed (register_flag (sample_unit True 0 0 0) [70] started) 0
   \<and> completed (register_flag (sample_unit False 3 0 1) [71]
        (register_flag (sample_unit True 0 0 0) [70] started))
      = completed (register_flag (sample_unit True 0 0 0) [70] started)
   \<and> completed (register_flag (sample_unit True 3 2 1) [70]
        (register_flag (sample_unit True 0 0 0) [70] started)) 0"
proof -
  let ?u = "sample_unit True 0 0 0"
  have o1: "origin (sample_unit False 3 0 1) = origin ?u"
    by (simp add: sample_unit_def)
  have c: "completed (register_flag ?u [70] started) 0"
    using register_flag_idempotent_monotonic [of ?u "[70]" started]
    by (simp add: sample_unit_def)
  have i: "completed (register_flag (sample_unit False 3 0 1) [71] (register_flag ?u [70] started))
             = completed (register_flag ?u [70] started)"
    using register_flag_idempotent_monotonic
            [of ?u "[70]" started "sample_unit False 3 0 1" "[71]"] o1
    by blast
  have m: "completed (register_flag (sample_unit True 3 2 1) [70] (register_flag ?u [70] started)) 0"
    using register_flag_idempotent_monotonic
            [of "sample_unit True 3 2 1" "[70]" "register_flag ?u [70] started" _ _ 0] c
    by blast
  from c i m show ?thesis by blast
qed

section \<open>Flags registered by \<open>find_flag\<close>\<close>

lemma utf8_decode_length: "utf8_decode bs = Some s \<Longrightarrow> length s \<le> length bs"
proof (induction bs arbitrary: s rule: utf8_decode.induct)
  case 1
  then show ?case by simp
next
  case (2 b0 bs)
  show ?case
    using "2.prems" "2.IH"
    by (fastforce simp: Let_def split: if_splits list.splits)
qed

lemma length_group: "length (group d sp) \<le> length d"
  by (simp add: group_def)

lemma group_whole:
  assumes "length (group d sp) = length d"
  shows "group d sp = d"
proof (cases "d = []")
  case True
  then show ?thesis by (simp add: group_def)
next
  case False
  then have pos: "0 < length d" by simp
  from assms have m: "min (length d - fst sp) (snd sp - fst sp) = length d"
    by (simp add: group_def)
  from m pos have z: "fst sp = 0" by arith
  from m z have "length d \<le> snd sp" by simp
  with z show ?thesis by (simp add: group_def)
qed

lemma strict_match_whole:
  assumes "utf8_decode (group d sp) = Some f" and "length f = length d"
  shows "group d sp = d"
proof -
  have "length f \<le> length (group d sp)" using assms(1) by (rule utf8_decode_length)
  with assms(2) length_group [of d sp] have "length (group d sp) = length d" by simp
  then show ?thesis by (rule group_whole)
qed

lemma xml_forms_head: "d \<in> set (xml_forms d)"
  by (subst xml_forms.simps) simp

lemma xml_forms_unfold:
  "xml_forms d = d # (if strip_xml d \<noteq> d then xml_forms (strip_xml d) else [])"
  by (subst xml_forms.simps) simp

lemma only_flags_mono: "only_flags search u cs fl \<Longrightarrow> set cs \<subseteq> set cs' \<Longrightarrow> only_flags search u cs' fl"
  unfolding only_flags_def by blast

lemma only_flags_append:
  "only_flags search u cs fl \<Longrightarrow> only_flags search u cs fl' \<Longrightarrow> only_flags search u cs (fl @ fl')"
  unfolding only_flags_def by auto

lemma only_flags_Nil: "only_flags search u cs []"
  unfolding only_flags_def by simp

lemma all_flags_mono: "all_flags search u cs fl \<Longrightarrow> set fl \<subseteq> set fl' \<Longrightarrow> all_flags search u cs fl'"
  unfolding all_flags_def by blast

lemma all_flags_append:
  "all_flags search u cs fl \<Longrightarrow> all_flags search u cs' fl \<Longrightarrow> all_flags search u (cs @ cs') fl"
  unfolding all_flags_def by auto

lemma all_flags_Nil: "all_flags search u [] fl"
  unfolding all_flags_def by simp

lemma find_flag_bytes_events:
  "flag_pattern M = Some search \<Longrightarrow> find_flag_bytes M u d st = (r, st') \<Longrightarrow>
   \<exists>fl. st' = st\<lparr>events := events st @ fl,
                  completed := (if fl = [] then completed st else (completed st)(origin u := True))\<rparr>
        \<and> only_flags search u (xml_forms d) fl
        \<and> (r = None \<longrightarrow> all_flags search u (xml_forms d) fl)"
proof (induction M u d st arbitrary: r st' rule: find_flag_bytes.induct)
  case (1 M u d st)
  note pat = "1.prems"(1)
  let ?rec = "if strip_xml d \<noteq> d then find_flag_bytes M u (strip_xml d) st else (None, st)"
  let ?tl = "if strip_xml d \<noteq> d then xml_forms (strip_xml d) else []"
  obtain r1 s1 where rec: "?rec = (r1, s1)" by (cases ?rec)
  have forms: "xml_forms d = d # ?tl" by (rule xml_forms_unfold)
  have "\<exists>fl. s1 = st\<lparr>events := events st @ fl,
                  completed := (if fl = [] then completed st else (completed st)(origin u := True))\<rparr>
        \<and> only_flags search u ?tl fl \<and> (r1 = None \<longrightarrow> all_flags search u ?tl fl)"
  proof (cases "strip_xml d \<noteq> d")
    case True
    with rec have "find_flag_bytes M u (strip_xml d) st = (r1, s1)" by simp
    from "1.IH" [OF True pat this] True show ?thesis by simp
  next
    case False
    with rec have "r1 = None" "s1 = st" by simp_all
    with False show ?thesis
      by (intro exI [of _ "[]"]) (simp add: only_flags_Nil all_flags_Nil)
  qed
  then obtain fl1 where
    s1: "s1 = st\<lparr>events := events st @ fl1,
                  completed := (if fl1 = [] then completed st else (completed st)(origin u := True))\<rparr>"
    and only1: "only_flags search u ?tl fl1"
    and all1: "r1 = None \<longrightarrow> all_flags search u ?tl fl1"
    by blast
  have res: "(case r1 of
        Some e \<Rightarrow> (Some e, s1)
      | None \<Rightarrow>
          (case search d of
             None \<Rightarrow> (None, s1)
           | Some sp \<Rightarrow>
               (case utf8_decode (group d sp) of
                  None \<Rightarrow> (Some UnicodeDecodeError, s1)
                | Some found \<Rightarrow>
                    if isprintable found then
                      (if STRICT_FLAGS u \<and> length found = length d
                       then (None, register_flag u found s1)
                       else if \<not> STRICT_FLAGS u
                       then (None, register_flag u found s1)
                       else (None, s1))
                    else (None, s1)))) = (r, st')"
    using "1.prems"(2) unfolding find_flag_bytes.simps [of M u d st] rec
    by (cases r1) (auto simp: pat)
  consider
    (same) "st' = s1" "r = None \<longrightarrow> r1 = None"
      "r = None \<longrightarrow> (\<forall>sp f. search d = Some sp \<and> utf8_decode (group d sp) = Some f
                         \<and> isprintable f \<longrightarrow> STRICT_FLAGS u)"
  | (flag) sp found where "r = None" "r1 = None" "st' = register_flag u found s1"
      "search d = Some sp" "utf8_decode (group d sp) = Some found" "isprintable found"
      "STRICT_FLAGS u \<longrightarrow> length found = length d"
    using res by (auto split: option.splits if_splits)
  then show ?case
  proof cases
    case same
    have o: "only_flags search u (xml_forms d) fl1"
      using only1 forms by (auto intro: only_flags_mono)
    have a: "r = None \<longrightarrow> all_flags search u (xml_forms d) fl1"
    proof
      assume rn: "r = None"
      with same(3) have "all_flags search u [d] fl1" by (auto simp: all_flags_def)
      moreover from rn same(2) all1 have "all_flags search u ?tl fl1" by simp
      ultimately have "all_flags search u ([d] @ ?tl) fl1" by (rule all_flags_append)
      with forms show "all_flags search u (xml_forms d) fl1" by simp
    qed
    from same(1) s1 o a show ?thesis by blast
  next
    case flag
    let ?fl = "fl1 @ [OnFlag u found]"
    have st': "st' = st\<lparr>events := events st @ ?fl,
                  completed := (if ?fl = [] then completed st else (completed st)(origin u := True))\<rparr>"
      using flag(3) s1 by (simp add: register_flag_def emit_def)
    have whole: "STRICT_FLAGS u \<longrightarrow> group d sp = d"
      using flag(5,7) by (auto intro: strict_match_whole)
    have "only_flags search u (xml_forms d) [OnFlag u found]"
      unfolding only_flags_def
    proof (intro ballI)
      fix e
      assume "e \<in> set [OnFlag u found]"
      then have e: "e = OnFlag u found" by simp
      show "\<exists>c\<in>set (xml_forms d). \<exists>sp f.
              e = OnFlag u f \<and> search c = Some sp \<and> utf8_decode (group c sp) = Some f
              \<and> isprintable f \<and> (STRICT_FLAGS u \<longrightarrow> group c sp = c)"
        using e flag(4,5,6) whole
        by (intro bexI [of _ d] exI [of _ sp] exI [of _ found]) (simp_all add: xml_forms_head)
    qed
    moreover have "only_flags search u (xml_forms d) fl1"
      using only1 forms by (auto intro: only_flags_mono)
    ultimately have o: "only_flags search u (xml_forms d) ?fl"
      by (auto intro: only_flags_append)
    have "all_flags search u [d] ?fl"
      using flag(4,5) by (auto simp: all_flags_def)
    moreover have "all_flags search u ?tl ?fl"
      using all1 flag(2) by (auto intro: all_flags_mono)
    ultimately have "all_flags search u ([d] @ ?tl) ?fl" by (rule all_flags_append)
    with forms have a: "all_flags search u (xml_forms d) ?fl" by simp
    from st' o a show ?thesis by blast
  qed
qed

lemma flagged_Nil: "flagged st u [] = st"
  by (simp add: flagged_def)

lemma flagged_flagged: "flagged (flagged st u fl) u fl' = flagged st u (fl @ fl')"
  by (simp add: flagged_def)

lemma find_flag_bytes_no_pattern:
  "flag_pattern M = None \<Longrightarrow> find_flag_bytes M u d st = (Some AttributeError, st)"
proof (induction M u d st rule: find_flag_bytes.induct)
  case (1 M u d st)
  show ?case
  proof (cases "strip_xml d \<noteq> d")
    case True
    with 1 have "find_flag_bytes M u (strip_xml d) st = (Some AttributeError, st)" by simp
    with True show ?thesis by (subst find_flag_bytes.simps) simp
  next
    case False
    with "1.prems" show ?thesis by (subst find_flag_bytes.simps) simp
  qed
qed

lemma find_flag_bytes_flagged:
  assumes "find_flag_bytes M u d st = (r, st')"
  shows "\<exists>fl. st' = flagged st u fl
              \<and> (\<forall>search. flag_pattern M = Some search \<longrightarrow>
                    only_flags search u (xml_forms d) fl
                    \<and> (r = None \<longrightarrow> all_flags search u (xml_forms d) fl))"
proof (cases "flag_pattern M")
  case None
  with assms find_flag_bytes_no_pattern [of M u d st] have "st' = flagged st u []"
    by (simp add: flagged_Nil)
  with None show ?thesis by auto
next
  case (Some search)
  from find_flag_bytes_events [OF Some assms] Some show ?thesis
    by (auto simp: flagged_def)
qed

lemma find_flag_flagged:
  "find_flag M u data st = (r, st') \<Longrightarrow>
     \<exists>fl. st' = flagged st u fl
          \<and> (\<forall>search. flag_pattern M = Some search \<longrightarrow>
                only_flags search u (searched data) fl
                \<and> (r = None \<longrightarrow> all_flags search u (searched data) fl))"
  and find_flag_items_flagged:
  "find_flag_items M u xs st = (r, st') \<Longrightarrow>
     \<exists>fl. st' = flagged st u fl
          \<and> (\<forall>search. flag_pattern M = Some search \<longrightarrow>
                only_flags search u (searched_items xs) fl
                \<and> (r = None \<longrightarrow> all_flags search u (searched_items xs) fl))"
proof (induction M u data st and M u xs st arbitrary: r st' and r st'
       rule: find_flag_find_flag_items.induct)
  case (1 M u xs st)
  then show ?case by simp
next
  case (2 M u xs st)
  then show ?case by simp
next
  case (3 M u s st)
  show ?case
  proof (cases "utf8_encode s")
    case None
    with "3.prems" have "st' = flagged st u []" "r \<noteq> None" by (auto simp: flagged_Nil)
    with None show ?thesis by (auto simp: only_flags_Nil)
  next
    case (Some d)
    with "3.prems" have "find_flag_bytes M u d st = (r, st')" by simp
    from find_flag_bytes_flagged [OF this] Some show ?thesis by simp
  qed
next
  case (4 M u d st)
  then have "find_flag_bytes M u d st = (r, st')" by simp
  from find_flag_bytes_flagged [OF this] show ?case by simp
next
  case (5 M u st)
  then have "st' = flagged st u []" by (simp add: flagged_Nil)
  then show ?case by (auto simp: only_flags_Nil all_flags_Nil)
next
  case (6 M u x xs st)
  obtain r0 s0 where x: "find_flag M u x st = (r0, s0)" by (cases "find_flag M u x st")
  from "6.IH"(1) [OF x] obtain fl0 where
    s0: "s0 = flagged st u fl0"
    and p0: "\<And>search. flag_pattern M = Some search \<Longrightarrow>
               only_flags search u (searched x) fl0
               \<and> (r0 = None \<longrightarrow> all_flags search u (searched x) fl0)"
    by blast
  show ?case
  proof (cases r0)
    case (Some e)
    with "6.prems" x have r: "r = Some e" and "st' = s0" by simp_all
    with s0 have st': "st' = flagged st u fl0" by simp
    have "only_flags search u (searched_items (x # xs)) fl0"
      if "flag_pattern M = Some search" for search
      using p0 [OF that] by (auto intro: only_flags_mono)
    with st' r show ?thesis by blast
  next
    case None
    with "6.prems" x have rest: "find_flag_items M u xs s0 = (r, st')" by simp
    from "6.IH"(2) [OF x [symmetric] _ rest] None obtain fl1 where
      s1: "st' = flagged s0 u fl1"
      and p1: "\<And>search. flag_pattern M = Some search \<Longrightarrow>
               only_flags search u (searched_items xs) fl1
               \<and> (r = None \<longrightarrow> all_flags search u (searched_items xs) fl1)"
      by blast
    have st': "st' = flagged st u (fl0 @ fl1)"
      using s0 s1 by (simp add: flagged_flagged)
    have "only_flags search u (searched_items (x # xs)) (fl0 @ fl1)
          \<and> (r = None \<longrightarrow> all_flags search u (searched_items (x # xs)) (fl0 @ fl1))"
      if pat: "flag_pattern M = Some search" for search
    proof
      from p0 [OF pat] have "only_flags search u (searched_items (x # xs)) fl0"
        by (auto intro: only_flags_mono)
      moreover from p1 [OF pat] have "only_flags search u (searched_items (x # xs)) fl1"
        by (auto intro: only_flags_mono)
      ultimately show "only_flags search u (searched_items (x # xs)) (fl0 @ fl1)"
        by (rule only_flags_append)
      show "r = None \<longrightarrow> all_flags search u (searched_items (x # xs)) (fl0 @ fl1)"
      proof
        assume "r = None"
        with p0 [OF pat] p1 [OF pat] None
        have "all_flags search u (searched x) (fl0 @ fl1)"
          and "all_flags search u (searched_items xs) (fl0 @ fl1)"
          by (auto intro: all_flags_mono)
        then show "all_flags search u (searched_items (x # xs)) (fl0 @ fl1)"
          by (simp add: all_flags_append)
      qed
    qed
    with st' show ?thesis by blast
  qed
qed


lemmas sample_eval =
  find_flag_bytes.simps sample_manager_def sample_unit_def started_def tag_len_def
  flag_braces_def flag_braces_at_def group_def cont_def low6_def isprintable_def
  register_flag_def emit_def



section \<open>Exceptions leaving \<open>find_flag\<close>\<close>

text \<open>
  With a compiled pattern, a call of \<open>find_flag\<close> returns without an exception
  exactly on the data described by \<open>tolerated\<close>.
\<close>

lemma decodable_matches_unfold:
  "decodable_matches search d =
     ((case search d of None \<Rightarrow> True | Some sp \<Rightarrow> utf8_decode (group d sp) \<noteq> None)
      \<and> (strip_xml d \<noteq> d \<longrightarrow> decodable_matches search (strip_xml d)))"
  unfolding decodable_matches_def by (subst xml_forms.simps) simp

lemma find_flag_bytes_raises:
  "flag_pattern M = Some search \<Longrightarrow>
   (fst (find_flag_bytes M u d st) = None) = decodable_matches search d"
proof (induction M u d st rule: find_flag_bytes.induct)
  case (1 M u d st)
  note pat = "1.prems"
  let ?rec = "if strip_xml d \<noteq> d then find_flag_bytes M u (strip_xml d) st else (None, st)"
  obtain r1 s1 where rec: "?rec = (r1, s1)" by (cases ?rec)
  have r1: "(r1 = None) = (strip_xml d \<noteq> d \<longrightarrow> decodable_matches search (strip_xml d))"
  proof (cases "strip_xml d \<noteq> d")
    case True
    from "1.IH" [OF True pat] True rec show ?thesis by simp
  next
    case False
    with rec show ?thesis by simp
  qed
  have "(fst (find_flag_bytes M u d st) = None) =
          (r1 = None \<and> (case search d of None \<Rightarrow> True
                         | Some sp \<Rightarrow> utf8_decode (group d sp) \<noteq> None))"
    unfolding find_flag_bytes.simps [of M u d st] rec
    by (cases r1) (auto simp: pat split: option.splits)
  with r1 show ?case by (subst decodable_matches_unfold) auto
qed

lemma find_flag_raises:
  "flag_pattern M = Some search \<Longrightarrow>
     (fst (find_flag M u data st) = None) = tolerated search data"
  and find_flag_items_raises:
  "flag_pattern M = Some search \<Longrightarrow>
     (fst (find_flag_items M u xs st) = None) = tolerated_items search xs"
proof (induction M u data st and M u xs st rule: find_flag_find_flag_items.induct)
  case (3 M u s st)
  then show ?case by (auto simp: find_flag_bytes_raises split: option.splits)
next
  case (4 M u d st)
  then show ?case by (simp add: find_flag_bytes_raises)
next
  case (6 M u x xs st)
  obtain r0 s0 where x: "find_flag M u x st = (r0, s0)" by (cases "find_flag M u x st")
  show ?case
  proof (cases r0)
    case None
    from "6.IH"(2) [OF x [symmetric] None "6.prems"] "6.IH"(1) [OF "6.prems"] x None
    show ?thesis by simp
  next
    case (Some e)
    with "6.IH"(1) [OF "6.prems"] x show ?thesis by simp
  qed
qed simp_all

text \<open>
  Claim C2. The claim asks that \<open>find_flag\<close> never raises, whatever the bytes
  or text. Line 144 decodes the matched bytes strictly, in front of the test
  that flags be printable: with the sample flag format the seven bytes
  \<^verbatim>\<open>FLAG{\<close>, \<open>0xFF\<close>, \<^verbatim>\<open>}\<close> match as a whole and the call ends with a
  \<open>UnicodeDecodeError\<close>. A match that decodes but is not printable (the byte
  \<open>0x01\<close> in place of \<open>0xFF\<close>) is skipped in silence by the next line. The
  raise also ends the loop over a list: the flag in the element after the
  undecodable one is not registered, as it is when that element stands alone.
\<close>

theorem find_flag_undecodable_match_raises:
  "find_flag sample_manager (sample_unit False 0 0 0)
     (Bytes [CHR ''F'', CHR ''L'', CHR ''A'', CHR ''G'', CHR ''{'', CHR 0xFF, CHR ''}'']) started
     = (Some UnicodeDecodeError, started)
   \<and> find_flag sample_manager (sample_unit False 0 0 0)
     (Bytes [CHR ''F'', CHR ''L'', CHR ''A'', CHR ''G'', CHR ''{'', CHR 0x01, CHR ''}'']) started
     = (None, started)
   \<and> find_flag sample_manager (sample_unit False 0 0 0)
     (PyList [Bytes [CHR ''F'', CHR ''L'', CHR ''A'', CHR ''G'', CHR ''{'', CHR 0xFF, CHR ''}''],
              Bytes ''FLAG{abc}'']) started
     = (Some UnicodeDecodeError, started)
   \<and> find_flag sample_manager (sample_unit False 0 0 0) (PyList [Bytes ''FLAG{abc}'']) started
     = (None, register_flag (sample_unit False 0 0 0) [70, 76, 65, 71, 123, 97, 98, 99, 125]
                started)"
  by (simp add: sample_eval)

section \<open>Registering data and artifacts\<close>

lemma queue_frame:
  "completed (queue u st) = completed st" "events (queue u st) = events st"
  "targets (queue u st) = targets st"
  by (simp_all add: queue_def)

lemma foldl_queue_frame:
  "completed (foldl (\<lambda>s u. queue u s) st us) = completed st
   \<and> events (foldl (\<lambda>s u. queue u s) st us) = events st
   \<and> targets (foldl (\<lambda>s u. queue u s) st us) = targets st"
  by (induction us arbitrary: st) (simp_all add: queue_frame)

lemma queue_target_frame:
  assumes "queue_target M up par st = (r, st')"
  shows "completed st' = completed st \<and> (\<exists>ev. events st' = events st @ ev)"
proof (cases "strip_is_empty_str up")
  case (Inl e)
  with assms show ?thesis by (simp add: queue_target_def)
next
  case (Inr b)
  show ?thesis
  proof (cases b)
    case True
    with Inr assms show ?thesis by (simp add: queue_target_def)
  next
    case False
    with Inr assms show ?thesis
      by (auto simp: queue_target_def new_target_def emit_def Let_def foldl_queue_frame
               split: if_splits)
  qed
qed

lemma queue_target_completed_parent:
  assumes "completed st (origin p)"
  shows "snd (queue_target M up (Some p) st) = st"
    and "fst (queue_target M up (Some p) st)
           = (case strip_is_empty_str up of Inl e \<Rightarrow> Inl e | Inr b \<Rightarrow> Inr None)"
  using assms by (auto simp: queue_target_def split: sum.splits bool.splits)

lemma find_flag_keeps:
  assumes "find_flag M u data st = (r, st')"
  shows "work st' = work st" "targets st' = targets st"
    "completed st a \<Longrightarrow> completed st' a"
    "\<exists>fl. events st' = events st @ fl"
proof -
  from find_flag_flagged [OF assms] obtain fl where st': "st' = flagged st u fl" by blast
  show "work st' = work st" "targets st' = targets st" using st' by (simp_all add: flagged_def)
  show "completed st a \<Longrightarrow> completed st' a" using st' by (simp add: flagged_def)
  show "\<exists>fl. events st' = events st @ fl" using st' by (auto simp: flagged_def)
qed

text \<open>
  Claim C4. In any state in which the completed flag of a unit's origin is true
  (as it is once \<open>register_flag\<close> has been called for that origin),
  \<open>register_data\<close> and \<open>register_artifact\<close> for that unit, with any data
  and either value of the local \<open>recurse\<close> argument, leave the work queue as it
  was and build no Target; the flag is still true afterwards, so the same holds
  for every later call.
\<close>

theorem no_recursion_once_completed:
  assumes "completed st (origin u)"
  shows "work (snd (register_data M u data rec st)) = work st
       \<and> targets (snd (register_data M u data rec st)) = targets st
       \<and> completed (snd (register_data M u data rec st)) (origin u)
       \<and> work (snd (register_artifact M u path rec' st)) = work st
       \<and> targets (snd (register_artifact M u path rec' st)) = targets st
       \<and> completed (snd (register_artifact M u path rec' st)) (origin u)"
proof -
  let ?st1 = "emit (OnData u data) st"
  obtain r2 st2 where ff: "find_flag M u data ?st1 = (r2, st2)"
    by (cases "find_flag M u data ?st1")
  have c1: "completed ?st1 (origin u)" using assms by (simp add: emit_def)
  from find_flag_keeps [OF ff] c1 have
    k: "work st2 = work st" "targets st2 = targets st" "completed st2 (origin u)"
    by (simp_all add: emit_def)
  have "snd (register_data M u data rec st) = st2"
    using ff k(3) by (cases r2) (simp_all add: register_data_def Let_def)
  with k have data: "work (snd (register_data M u data rec st)) = work st
       \<and> targets (snd (register_data M u data rec st)) = targets st
       \<and> completed (snd (register_data M u data rec st)) (origin u)"
    by simp
  let ?sa = "emit (OnArtifact u path) st"
  have ca: "completed ?sa (origin u)" using assms by (simp add: emit_def)
  have "snd (register_artifact M u path rec' st) = ?sa"
    using queue_target_completed_parent(1) [OF ca, of M path]
    by (cases "queue_target M path (Some u) ?sa")
       (auto simp: register_artifact_def Let_def split: sum.splits)
  then have art: "work (snd (register_artifact M u path rec' st)) = work st
       \<and> targets (snd (register_artifact M u path rec' st)) = targets st
       \<and> completed (snd (register_artifact M u path rec' st)) (origin u)"
    using assms by (simp add: emit_def)
  from data art show ?thesis by blast
qed

theorem no_recursion_once_completed_witness:
  "completed (register_flag (sample_unit False 0 0 0) [70] started)
     (origin (sample_unit False 1 0 1))
   \<and> work (snd (register_data sample_manager (sample_unit False 1 0 1) (Bytes ''more'') True
                  (register_flag (sample_unit False 0 0 0) [70] started))) = []
   \<and> work (snd (register_artifact sample_manager (sample_unit False 1 0 1) (Str [47, 116]) True
                  (register_flag (sample_unit False 0 0 0) [70] started))) = []
   \<and> work (snd (register_data sample_manager (sample_unit False 1 0 1) (Bytes ''more'') True
                  started))
      = [\<lparr>priority = 50, action = Init, unit = Some (sample_unit False 0 0 2), generator = None\<rparr>]"
proof -
  let ?st = "register_flag (sample_unit False 0 0 0) [70] started"
  let ?u = "sample_unit False 1 0 1"
  have c: "completed ?st (origin ?u)"
    by (simp add: register_flag_def emit_def sample_unit_def)
  have w: "work ?st = []"
    by (simp add: register_flag_def emit_def started_def)
  have before: "work (snd (register_data sample_manager ?u (Bytes ''more'') True started))
      = [\<lparr>priority = 50, action = Init, unit = Some (sample_unit False 0 0 2), generator = None\<rparr>]"
    by (simp add: register_data_def queue_target_def new_target_def queue_def Let_def sample_eval)
  from no_recursion_once_completed
         [OF c, where M = sample_manager and data = "Bytes ''more''" and rec = True
            and path = "Str [47, 116]" and rec' = True] w
  have "work (snd (register_data sample_manager ?u (Bytes ''more'') True ?st)) = []"
    and "work (snd (register_artifact sample_manager ?u (Str [47, 116]) True ?st)) = []"
    by simp_all
  with c before show ?thesis by blast
qed

text \<open>
  Claim C10. \<open>register_data\<close> always emits \<open>on_data\<close> first and always runs
  \<open>find_flag\<close> on the data next: the Monitor's log after the call starts with
  the old log, the \<open>on_data\<close> event and the flags \<open>find_flag\<close> registers on
  the state that follows \<open>on_data\<close>. When the origin is already completed the
  call is exactly these two steps: only the recursive \<open>queue_target\<close> is left
  out.
\<close>

theorem register_data_reports_and_searches:
  "(\<exists>fl rest.
      events (snd (find_flag M u data (emit (OnData u data) st)))
        = events st @ OnData u data # fl
      \<and> events (snd (register_data M u data rec st))
        = events st @ OnData u data # fl @ rest)
   \<and> (completed st (origin u) \<longrightarrow>
        register_data M u data rec st = find_flag M u data (emit (OnData u data) st))"
proof -
  let ?st1 = "emit (OnData u data) st"
  obtain r2 st2 where ff: "find_flag M u data ?st1 = (r2, st2)"
    by (cases "find_flag M u data ?st1")
  from find_flag_keeps(4) [OF ff] obtain fl where
    e2: "events st2 = events st @ OnData u data # fl"
    by (auto simp: emit_def)
  have "\<exists>rest. events (snd (register_data M u data rec st)) = events st2 @ rest"
  proof (cases "r2 = None \<and> recurse M \<and> \<not> completed st2 (origin u) \<and> rec")
    case True
    obtain r3 st3 where qt: "queue_target M data (Some u) st2 = (r3, st3)"
      by (cases "queue_target M data (Some u) st2")
    from queue_target_frame [OF qt] obtain ev where "events st3 = events st2 @ ev" by blast
    moreover have "snd (register_data M u data rec st) = st3"
      using True ff qt by (cases r3) (simp_all add: register_data_def Let_def)
    ultimately show ?thesis by blast
  next
    case False
    then have "snd (register_data M u data rec st) = st2"
      using ff by (cases r2) (auto simp: register_data_def Let_def)
    then show ?thesis by simp
  qed
  then obtain rest where "events (snd (register_data M u data rec st)) = events st2 @ rest"
    by blast
  with e2 ff have first: "\<exists>fl rest.
      events (snd (find_flag M u data ?st1)) = events st @ OnData u data # fl
      \<and> events (snd (register_data M u data rec st)) = events st @ OnData u data # fl @ rest"
    by auto
  have second: "completed st (origin u) \<longrightarrow> register_data M u data rec st = find_flag M u data ?st1"
  proof
    assume "completed st (origin u)"
    then have "completed ?st1 (origin u)" by (simp add: emit_def)
    from find_flag_keeps(3) [OF ff this] ff
    show "register_data M u data rec st = find_flag M u data ?st1"
      by (cases r2) (simp_all add: register_data_def Let_def)
  qed
  from first second show ?thesis by blast
qed

theorem register_data_reports_and_searches_witness:
  "completed (register_flag (sample_unit False 0 0 0) [70] started)
     (origin (sample_unit False 1 0 1))
   \<and> register_data sample_manager (sample_unit False 1 0 1) (Bytes ''FLAG{abc}'') True
        (register_flag (sample_unit False 0 0 0) [70] started)
      = find_flag sample_manager (sample_unit False 1 0 1) (Bytes ''FLAG{abc}'')
          (emit (OnData (sample_unit False 1 0 1) (Bytes ''FLAG{abc}''))
             (register_flag (sample_unit False 0 0 0) [70] started))
   \<and> events (snd (register_data sample_manager (sample_unit False 1 0 1) (Bytes ''FLAG{abc}'') True
                    (register_flag (sample_unit False 0 0 0) [70] started)))
      = [OnFlag (sample_unit False 0 0 0) [70],
         OnData (sample_unit False 1 0 1) (Bytes ''FLAG{abc}''),
         OnFlag (sample_unit False 1 0 1) [70, 76, 65, 71, 123, 97, 98, 99, 125]]"
proof -
  let ?st = "register_flag (sample_unit False 0 0 0) [70] started"
  let ?u = "sample_unit False 1 0 1"
  let ?d = "Bytes ''FLAG{abc}''"
  have c: "completed ?st (origin ?u)"
    by (simp add: register_flag_def emit_def sample_unit_def)
  from register_data_reports_and_searches [of sample_manager ?u ?d ?st True] c
  have eq: "register_data sample_manager ?u ?d True ?st
              = find_flag sample_manager ?u ?d (emit (OnData ?u ?d) ?st)"
    by blast
  have "events (snd (find_flag sample_manager ?u ?d (emit (OnData ?u ?d) ?st)))
      = [OnFlag (sample_unit False 0 0 0) [70], OnData ?u ?d,
         OnFlag ?u [70, 76, 65, 71, 123, 97, 98, 99, 125]]"
    by (simp add: sample_eval)
  with c eq show ?thesis by simp
qed

section \<open>The depth limit\<close>

text \<open>
  Claim C5, as amended. With a maximum depth that is not negative, every Target
  \<open>queue_target\<close> creates has depth at most \<open>max-depth\<close> (below it, for a
  Target with a parent). When \<open>parent.depth + 1 \<ge> max-depth\<close>, \<open>queue_target\<close>
  creates no Target, enqueues nothing and returns none for a bytes or text
  payload (a list or tuple has no \<open>strip\<close> and raises); it emits
  \<open>on_depth_limit\<close> exactly when the payload does not trim to the empty text
  and the parent's origin is not completed, since those two tests come first and
  return silently.
\<close>

theorem queue_target_depth_limit:
  "(0 \<le> max_depth M \<and> fst (queue_target M up par st) = Inr (Some t) \<longrightarrow>
      tdepth t \<le> max_depth M \<and> (par \<noteq> None \<longrightarrow> tdepth t < max_depth M))
   \<and> (max_depth M \<le> depth p + 1 \<longrightarrow>
        targets (snd (queue_target M up (Some p) st)) = targets st
      \<and> work (snd (queue_target M up (Some p) st)) = work st
      \<and> fst (queue_target M up (Some p) st)
          = (case strip_is_empty_str up of Inl e \<Rightarrow> Inl e | Inr b \<Rightarrow> Inr None)
      \<and> events (snd (queue_target M up (Some p) st))
          = (if strip_is_empty_str up = Inr False \<and> \<not> completed st (origin p)
             then events st @ [OnDepthLimit (unit_target p) p] else events st))"
proof -
  have built: "tdepth t \<le> max_depth M \<and> (par \<noteq> None \<longrightarrow> tdepth t < max_depth M)"
    if a: "0 \<le> max_depth M \<and> fst (queue_target M up par st) = Inr (Some t)"
  proof -
    from a have b: "par \<noteq> None \<longrightarrow> \<not> max_depth M \<le> depth (the par) + 1"
      and t: "t = fst (new_target up par st)"
      by (auto simp: queue_target_def Let_def
               split: sum.splits bool.splits if_splits prod.splits)
    from a b t show ?thesis
      by (cases par) (simp_all add: new_target_def Let_def)
  qed
  have limit: "targets (snd (queue_target M up (Some p) st)) = targets st
      \<and> work (snd (queue_target M up (Some p) st)) = work st
      \<and> fst (queue_target M up (Some p) st)
          = (case strip_is_empty_str up of Inl e \<Rightarrow> Inl e | Inr b \<Rightarrow> Inr None)
      \<and> events (snd (queue_target M up (Some p) st))
          = (if strip_is_empty_str up = Inr False \<and> \<not> completed st (origin p)
             then events st @ [OnDepthLimit (unit_target p) p] else events st)"
    if d: "max_depth M \<le> depth p + 1"
    using d by (simp add: queue_target_def emit_def split: sum.splits bool.splits)
  from built limit show ?thesis by blast
qed

theorem queue_target_depth_limit_witness:
  "0 \<le> max_depth sample_manager
   \<and> fst (queue_target sample_manager (Bytes ''x'') (Some (sample_unit False 0 0 3)) started)
       = Inr (Some \<lparr>upstream = Bytes ''x'', parent = Some (sample_unit False 0 0 3),
                     tdepth = 4, torigin = 0\<rparr>)
   \<and> (4::int) \<le> max_depth sample_manager
   \<and> max_depth sample_manager \<le> depth (sample_unit False 0 0 9) + 1
   \<and> strip_is_empty_str (Bytes ''x'') = Inr False
   \<and> \<not> completed started (origin (sample_unit False 0 0 9))
   \<and> fst (queue_target sample_manager (Bytes ''x'') (Some (sample_unit False 0 0 9)) started)
       = Inr None
   \<and> targets (snd (queue_target sample_manager (Bytes ''x'') (Some (sample_unit False 0 0 9))
                      started)) = []
   \<and> events (snd (queue_target sample_manager (Bytes ''x'') (Some (sample_unit False 0 0 9))
                     started))
       = [OnDepthLimit 0 (sample_unit False 0 0 9)]"
proof -
  let ?t = "\<lparr>upstream = Bytes ''x'', parent = Some (sample_unit False 0 0 3),
             tdepth = 4, torigin = 0\<rparr>"
  let ?p = "sample_unit False 0 0 9"
  have m: "0 \<le> max_depth sample_manager" by (simp add: sample_manager_def)
  have b: "fst (queue_target sample_manager (Bytes ''x'') (Some (sample_unit False 0 0 3)) started)
             = Inr (Some ?t)"
    by (simp add: queue_target_def new_target_def Let_def sample_manager_def sample_unit_def
          started_def)
  have d: "max_depth sample_manager \<le> depth ?p + 1"
    by (simp add: sample_manager_def sample_unit_def)
  have s: "strip_is_empty_str (Bytes ''x'') = Inr False" by simp
  have c: "\<not> completed started (origin ?p)" by (simp add: started_def)
  have st: "targets started = []" "events started = []" by (simp_all add: started_def)
  note inst = queue_target_depth_limit
    [where M = sample_manager and up = "Bytes ''x''" and st = started and p = ?p
       and par = "Some (sample_unit False 0 0 3)" and t = ?t]
  from inst m b have "tdepth ?t \<le> max_depth sample_manager" by blast
  then have le: "(4::int) \<le> max_depth sample_manager" by simp
  from inst d s c st
  have "fst (queue_target sample_manager (Bytes ''x'') (Some ?p) started) = Inr None"
    and "targets (snd (queue_target sample_manager (Bytes ''x'') (Some ?p) started)) = []"
    and "events (snd (queue_target sample_manager (Bytes ''x'') (Some ?p) started))
           = [OnDepthLimit (unit_target ?p) ?p]"
    by simp_all
  moreover have "unit_target ?p = 0" by (simp add: sample_unit_def)
  ultimately show ?thesis using m b le d s c by simp
qed

text \<open>
  As stated, the claim fails: a parent at the depth limit whose origin is
  completed makes \<open>queue_target\<close> return none with the state unchanged, so no
  \<open>on_depth_limit\<close> is emitted.
\<close>

theorem queue_target_depth_limit_counterexample:
  "max_depth sample_manager \<le> depth (sample_unit False 0 0 9) + 1
   \<and> queue_target sample_manager (Bytes ''x'') (Some (sample_unit False 0 0 9))
        (register_flag (sample_unit False 0 0 9) [70] started)
      = (Inr None, register_flag (sample_unit False 0 0 9) [70] started)
   \<and> events (register_flag (sample_unit False 0 0 9) [70] started)
      = [OnFlag (sample_unit False 0 0 9) [70]]"
  by (simp add: queue_target_def sample_manager_def sample_unit_def started_def
        register_flag_def emit_def)

section \<open>Where the code departs from its description\<close>

text \<open>
  Claim C6. The claim asks that a payload that is empty after trimming, an empty
  or all-whitespace byte string included, makes \<open>queue_target\<close> return none
  without a Target or a WorkItem. The test on line 173 compares the stripped
  payload with the text \<^verbatim>\<open>''\<close>, which no bytes object equals: for the empty
  byte string and for three spaces a root Target is built and, for the empty
  one, the state shows the Target and the queued unit. Empty or all-whitespace
  text is refused as the claim says.
\<close>

theorem queue_target_empty_bytes:
  "queue_target sample_manager (Bytes []) None started
     = (Inr (Some \<lparr>upstream = Bytes [], parent = None, tdepth = 0, torigin = 0\<rparr>),
        started\<lparr>targets := [\<lparr>upstream = Bytes [], parent = None, tdepth = 0, torigin = 0\<rparr>],
                work := [init_item (sample_unit False 0 0 0)],
                barrier_resets := Some 1\<rparr>)
   \<and> fst (queue_target sample_manager (Bytes ''   '') None started)
     = Inr (Some \<lparr>upstream = Bytes ''   '', parent = None, tdepth = 0, torigin = 0\<rparr>)
   \<and> queue_target sample_manager (Str []) None started = (Inr None, started)
   \<and> queue_target sample_manager (Str [32, 9, 32]) None started = (Inr None, started)"
  by (simp add: queue_target_def new_target_def queue_def Let_def init_item_def py_isspace_def
        sample_manager_def sample_unit_def started_def)

text \<open>
  Claim C7. The claim asks that \<open>queue_target\<close> without a parent fails with
  a state error once \<open>join\<close> has returned. \<open>join\<close> records nothing that
  \<open>queue_target\<close> reads: after a clean join (the barrier tripped, \<open>join\<close>
  returned true) a root payload is accepted and its Target returned.
\<close>

theorem queue_target_after_join:
  "join sample_manager False [(Tripped, False)] started
     = Some (True,
         started\<lparr>work := replicate 2 \<lparr>priority = - 10000, action = Abort, unit = None,
                                       generator = None\<rparr>,
                 barrier_resets := Some 1, events := [OnCompletion False]\<rparr>)
   \<and> fst (queue_target sample_manager (Bytes ''late'') None
            (started\<lparr>work := replicate 2 \<lparr>priority = - 10000, action = Abort, unit = None,
                                           generator = None\<rparr>,
                     barrier_resets := Some 1, events := [OnCompletion False]\<rparr>))
     = Inr (Some \<lparr>upstream = Bytes ''late'', parent = None, tdepth = 0, torigin = 0\<rparr>)"
  by (simp add: join_def signal_complete_def emit_def queue_target_def new_target_def queue_def
        Let_def sample_manager_def sample_unit_def started_def)

text \<open>
  Claim C3. The claim asks that the first interrupt during \<open>join\<close> injects the
  abort items and keeps waiting, and that only the second one leaves the loop.
  \<open>aborting\<close> starts as true, so the first interrupt already leaves the loop:
  \<open>join\<close> ends with the work queue untouched (no abort item) and whatever the
  driver would have observed next is never waited for. The two-stage path is in
  the loop, had \<open>aborting\<close> started as false: then the first interrupt signals
  and the second leaves.
\<close>

theorem join_first_interrupt:
  "join M has_timeout ((Interrupt, expired) # env) st = Some (True, emit (OnCompletion False) st)
   \<and> work (emit (OnCompletion False) st) = work st
   \<and> join_wait M False False [(Interrupt, expired), (Interrupt, expired')] st
       = Some (False, signal_complete M st)"
  by (simp add: join_def emit_def)

text \<open>
  Claim C8. The claim asks that an exception from \<open>enumerate\<close> or from advancing
  the generator is treated as the end of the sequence and that the worker goes
  on with the next item. Only the end of the sequence is caught on line 379: an
  exception from the first \<open>next\<close>, or from \<open>enumerate\<close> itself, leaves
  \<open>_thread\<close> and ends the worker, with the next item still in the queue. The
  item is not queued again and \<open>evaluate\<close> is not called, as the claim says. An
  exception from \<open>evaluate\<close>, in contrast, is caught, reported and the loop goes
  on.
\<close>

theorem thread_generator_raises:
  "thread_turn evaluate
     (started\<lparr>work := [init_item (failing_unit (Inr [Raise (UnitError ''boom'')])),
                       init_item (sample_unit False 0 0 0)]\<rparr>)
     = (Died (UnitError ''boom''), started\<lparr>work := [init_item (sample_unit False 0 0 0)]\<rparr>)
   \<and> thread_turn evaluate
     (started\<lparr>work := [init_item (failing_unit (Inl (UnitError ''boom''))),
                       init_item (sample_unit False 0 0 0)]\<rparr>)
     = (Died (UnitError ''boom''), started\<lparr>work := [init_item (sample_unit False 0 0 0)]\<rparr>)
   \<and> thread_turn (\<lambda>u c s. (Some (UnitError ''boom''), s))
     (started\<lparr>work := [init_item (failing_unit (Inr [Yield 7])),
                       init_item (sample_unit False 0 0 0)]\<rparr>)
     = (Continue,
        started\<lparr>work := [init_item (sample_unit False 0 0 0),
                          \<lparr>priority = 10, action = Evaluate,
                            unit = Some (failing_unit (Inr [Yield 7])), generator = Some []\<rparr>],
                events := [OnException (failing_unit (Inr [Yield 7])) (UnitError ''boom'')]\<rparr>)"
  by (simp add: thread_turn_def thread_item_def requeue_def emit_def init_item_def
        failing_unit_def sample_unit_def started_def)

end
